theory Spec2Isabelle
  imports Complex_Main
begin

section \<open>Errors\<close>

text \<open>
  Every failure of the program is a Python \<open>ValueError\<close> (or, for a dictionary lookup,
  a \<open>KeyError\<close>) told apart by the place that raises it.  The constructors name these
  places: the latitude check and the longitude check of \<open>encode\<close> (the spec's
  \<open>OutOfRange\<close>), the length check of \<open>decode\<close> (\<open>InvalidLength\<close>), the membership
  check of \<open>base29_to_int\<close> (\<open>InvalidSymbol\<close>, carrying the offending character), and
  the lookup \<open>INDEX_TO_CHAR[n % BASE]\<close> of \<open>int_to_base29\<close>.
\<close>

datatype error =
    LatOutOfRange
  | LonOutOfRange
  | InvalidLength
  | InvalidSymbol char
  | KeyError int

fun is_OutOfRange :: "error \<Rightarrow> bool" where
  "is_OutOfRange LatOutOfRange = True"
| "is_OutOfRange LonOutOfRange = True"
| "is_OutOfRange _ = False"

section \<open>The alphabet and its lookup tables\<close>

definition CHARSET :: "char list" where
  "CHARSET =
    [CHR ''A'', CHR ''B'', CHR ''C'', CHR ''D'', CHR ''E'', CHR ''F'', CHR ''G'', CHR ''H'',
     CHR ''J'', CHR ''K'', CHR ''L'', CHR ''M'', CHR ''N'', CHR ''P'', CHR ''Q'', CHR ''R'',
     CHR ''T'', CHR ''U'', CHR ''V'', CHR ''W'', CHR ''X'', CHR ''Y'', CHR ''2'', CHR ''3'',
     CHR ''4'', CHR ''6'', CHR ''7'', CHR ''8'', CHR ''9'']"

definition BASE :: int where
  "BASE = int (length CHARSET)"

text \<open>
  The two dictionaries are built by comprehensions over \<open>enumerate(CHARSET)\<close>; a later
  pair would overwrite an earlier one with the same key, hence the \<open>rev\<close>.
\<close>

definition CHAR_TO_INDEX :: "char \<rightharpoonup> int" where
  "CHAR_TO_INDEX = map_of (rev (map (\<lambda>(idx, char). (char, int idx)) (enumerate 0 CHARSET)))"

definition INDEX_TO_CHAR :: "int \<rightharpoonup> char" where
  "INDEX_TO_CHAR = map_of (rev (map (\<lambda>(idx, char). (int idx, char)) (enumerate 0 CHARSET)))"

section \<open>Digit codec\<close>

text \<open>
  A Python string is a list of characters here.  The alphabet is ASCII, and a character
  that \<open>char\<close> cannot hold would behave as any other character outside the alphabet.

  \<open>int_to_base29\<close>: the loop runs \<open>length\<close> times, appending the symbol of \<open>n % BASE\<close>
  and floor-dividing \<open>n\<close>; the list is reversed at the end.  Python's \<open>%\<close> and \<open>//\<close> on
  integers are the floor operations, as \<open>mod\<close> and \<open>div\<close> on \<open>int\<close> are.  The length is a
  natural number: \<open>range(length)\<close> is empty for a length below one.
\<close>

fun int_to_base29_loop :: "nat \<Rightarrow> int \<Rightarrow> char list \<Rightarrow> error + char list" where
  "int_to_base29_loop 0 n chars = Inr chars"
| "int_to_base29_loop (Suc k) n chars =
     (case INDEX_TO_CHAR (n mod BASE) of
        None \<Rightarrow> Inl (KeyError (n mod BASE))
      | Some c \<Rightarrow> int_to_base29_loop k (n div BASE) (chars @ [c]))"

definition int_to_base29 :: "int \<Rightarrow> nat \<Rightarrow> error + string" where
  "int_to_base29 n len =
     (case int_to_base29_loop len n [] of
        Inl e \<Rightarrow> Inl e
      | Inr chars \<Rightarrow> Inr (rev chars))"

fun base29_to_int_loop :: "string \<Rightarrow> int \<Rightarrow> error + int" where
  "base29_to_int_loop [] n = Inr n"
| "base29_to_int_loop (char # s) n =
     (case CHAR_TO_INDEX char of
        None \<Rightarrow> Inl (InvalidSymbol char)
      | Some idx \<Rightarrow> base29_to_int_loop s (n * BASE + idx))"

definition base29_to_int :: "string \<Rightarrow> error + int" where
  "base29_to_int s = base29_to_int_loop s 0"

text \<open>
  The spec's reading of \<open>toDigits\<close>: the positional base-29 representation of \<open>n\<close>,
  most significant digit first, on exactly \<open>len\<close> symbols.  The digit at position \<open>i\<close>
  (from the left) is \<open>(n div 29 ^ (len - 1 - i)) mod 29\<close>.
\<close>

definition toDigits :: "int \<Rightarrow> nat \<Rightarrow> string" where
  "toDigits n len =
     map (\<lambda>i. CHARSET ! nat ((n div BASE ^ (len - 1 - i)) mod BASE)) [0..<len]"

section \<open>Binary64 arithmetic\<close>

text \<open>
  A Python \<open>float\<close> is an IEEE 754 binary64 number.  A finite one is a real number
  \<open>m * 2 powi q\<close> with \<open>\<bar>m\<bar> < 2 ^ 53\<close> and \<open>- 1074 \<le> q\<close>, and every arithmetic operation
  returns the exact result rounded to the nearest such number, ties to the even
  significand.  Finite floats are modelled by the reals they denote and the rounding is
  written out.  The exponent of \<open>x\<close> is \<open>\<lfloor>log 2 \<bar>x\<bar>\<rfloor>\<close>, kept at \<open>- 1022\<close> or above (below
  that the numbers are subnormal and the spacing stays \<open>2 powi (- 1074)\<close>); the spacing
  of the floats around \<open>x\<close> is \<open>2\<close> to that exponent minus \<open>52\<close>.  Overflow to infinity is
  not modelled: no operand of \<open>encode\<close> or \<open>decode\<close> reaches \<open>2 ^ 33\<close> in magnitude, far
  below the largest finite float.  The non-finite inputs
  (\<open>nan\<close>, \<open>inf\<close>) fail the first comparison that sees them, so \<open>encode\<close> rejects them
  as out of range before any arithmetic.
\<close>

definition round_half_even :: "real \<Rightarrow> int" where
  "round_half_even r =
     (let f = \<lfloor>r\<rfloor>; d = r - of_int f
      in if d < 1 / 2 then f
         else if 1 / 2 < d then f + 1
         else if even f then f else f + 1)"

definition round64 :: "real \<Rightarrow> real" where
  "round64 x =
     (if x = 0 then 0
      else let e = max \<lfloor>log 2 \<bar>x\<bar>\<rfloor> (- 1022);
               q = 2 powi (e - 52)
           in of_int (round_half_even (x / q)) * q)"

definition is_float64 :: "real \<Rightarrow> bool" where
  "is_float64 x \<longleftrightarrow> round64 x = x"

definition fadd :: "real \<Rightarrow> real \<Rightarrow> real" where
  "fadd a b = round64 (a + b)"

definition fsub :: "real \<Rightarrow> real \<Rightarrow> real" where
  "fsub a b = round64 (a - b)"

definition fmul :: "real \<Rightarrow> real \<Rightarrow> real" where
  "fmul a b = round64 (a * b)"

definition fdiv :: "real \<Rightarrow> real \<Rightarrow> real" where
  "fdiv a b = round64 (a / b)"

section \<open>Coordinate quantizer\<close>

text \<open>
  \<open>encode\<close>: the two range checks in the source's order, the normalisation, the scaling
  by \<open>2**24 - 1\<close> with \<open>math.floor\<close>, and the two five-symbol fields.  The integer
  constants \<open>90\<close>, \<open>180\<close>, \<open>360\<close> and \<open>2**24 - 1\<close> convert to floats exactly.  An integer
  argument in range gives the same result as the float of the same value: its sum with
  the offset is exact either way.
\<close>

definition encode :: "real \<Rightarrow> real \<Rightarrow> error + string" where
  "encode lat lon =
     (if \<not> (- 90 \<le> lat \<and> lat \<le> 90) then Inl LatOutOfRange
      else if \<not> (- 180 \<le> lon \<and> lon \<le> 180) then Inl LonOutOfRange
      else
        let lat_norm = fdiv (fadd lat 90) 180;
            lon_norm = fdiv (fadd lon 180) 360;
            lat_int = \<lfloor>fmul lat_norm (2 ^ 24 - 1)\<rfloor>;
            lon_int = \<lfloor>fmul lon_norm (2 ^ 24 - 1)\<rfloor>
        in case int_to_base29 lat_int 5 of
             Inl e \<Rightarrow> Inl e
           | Inr lat_code \<Rightarrow>
               (case int_to_base29 lon_int 5 of
                  Inl e \<Rightarrow> Inl e
                | Inr lon_code \<Rightarrow> Inr (lat_code @ lon_code)))"

text \<open>
  \<open>decode\<close>: the length check first, then the two fields \<open>code[:5]\<close> and \<open>code[5:]\<close>,
  latitude field first.  \<open>lat_int / (2**24 - 1)\<close> divides two Python integers; the
  quotient is the correctly rounded float.
\<close>

definition decode :: "string \<Rightarrow> error + (real \<times> real)" where
  "decode code =
     (if length code \<noteq> 10 then Inl InvalidLength
      else
        let lat_code = take 5 code;
            lon_code = drop 5 code
        in case base29_to_int lat_code of
             Inl e \<Rightarrow> Inl e
           | Inr lat_int \<Rightarrow>
               (case base29_to_int lon_code of
                  Inl e \<Rightarrow> Inl e
                | Inr lon_int \<Rightarrow>
                    let lat_norm = fdiv (of_int lat_int) (2 ^ 24 - 1);
                        lon_norm = fdiv (of_int lon_int) (2 ^ 24 - 1);
                        lat = fsub (fmul lat_norm 180) 90;
                        lon = fsub (fmul lon_norm 360) 180
                    in Inr (lat, lon)))"

text \<open>
  The integers that \<open>encode\<close> serialises, \<open>lat_int\<close> and \<open>lon_int\<close> of the source: the
  floor of the scaled coordinate as the floats compute it.
\<close>

definition latInt :: "real \<Rightarrow> int" where
  "latInt lat = \<lfloor>fmul (fdiv (fadd lat 90) 180) (2 ^ 24 - 1)\<rfloor>"

definition lonInt :: "real \<Rightarrow> int" where
  "lonInt lon = \<lfloor>fmul (fdiv (fadd lon 180) 360) (2 ^ 24 - 1)\<rfloor>"

text \<open>
  The spec's formulas, read in exact real arithmetic: \<open>latNorm = (lat + 90) / 180\<close>,
  \<open>lonNorm = (lon + 180) / 360\<close>, \<open>latInt = floor(latNorm * (2^24 - 1))\<close> and
  \<open>lonInt = floor(lonNorm * (2^24 - 1))\<close>, with no rounding.
\<close>

definition latNorm :: "real \<Rightarrow> real" where
  "latNorm lat = (lat + 90) / 180"

definition lonNorm :: "real \<Rightarrow> real" where
  "lonNorm lon = (lon + 180) / 360"

definition exactLatInt :: "real \<Rightarrow> int" where
  "exactLatInt lat = \<lfloor>latNorm lat * (2 ^ 24 - 1)\<rfloor>"

definition exactLonInt :: "real \<Rightarrow> int" where
  "exactLonInt lon = \<lfloor>lonNorm lon * (2 ^ 24 - 1)\<rfloor>"

text \<open>The round trip \<open>decode(encode(lat, lon))\<close>.\<close>

definition roundtrip :: "real \<Rightarrow> real \<Rightarrow> error + (real \<times> real)" where
  "roundtrip lat lon =
     (case encode lat lon of
        Inl e \<Rightarrow> Inl e
      | Inr code \<Rightarrow> decode code)"

section \<open>Error estimator\<close>

text \<open>
  \<open>calculate_error\<close> calls \<open>encode\<close>, then \<open>decode\<close>, then the geodesic distance of
  \<open>geopy\<close> on the original and the decoded pair.  The distance function is not part of
  the repository and is a parameter here; its result type is left open.
\<close>

definition calculate_error ::
  "(real \<times> real \<Rightarrow> real \<times> real \<Rightarrow> 'r) \<Rightarrow> real \<Rightarrow> real \<Rightarrow> error + 'r" where
  "calculate_error geodesic lat lon =
     (case encode lat lon of
        Inl e \<Rightarrow> Inl e
      | Inr code \<Rightarrow>
          (case decode code of
             Inl e \<Rightarrow> Inl e
           | Inr (decoded_lat, decoded_lon) \<Rightarrow>
               Inr (geodesic (lat, lon) (decoded_lat, decoded_lon))))"

section \<open>Facts about the alphabet\<close>

lemma length_CHARSET: "length CHARSET = 29"
  by (simp add: CHARSET_def)

lemma BASE_eq: "BASE = 29"
  by (simp add: BASE_def length_CHARSET)

lemma distinct_CHARSET: "distinct CHARSET"
  by (simp add: CHARSET_def)

lemma map_of_rev_distinct:
  "distinct (map fst xs) \<Longrightarrow> map_of (rev xs) = map_of xs"
  by (rule ext) (metis map_of_eq_None_iff map_of_is_SomeI not_Some_eq set_rev map_of_SomeD)

lemma enumerate_keys:
  "map (\<lambda>(idx, char). (int idx, char)) (enumerate 0 xs) = zip (map int [0..<length xs]) xs"
  by (simp add: enumerate_eq_zip zip_map1)

lemma enumerate_vals:
  "map (\<lambda>(idx, char). (char, int idx)) (enumerate 0 xs) = zip xs (map int [0..<length xs])"
  by (simp add: enumerate_eq_zip zip_map2 zip_commute[of xs] split_def)

lemma INDEX_TO_CHAR_Some:
  assumes "0 \<le> i" "i < 29"
  shows "INDEX_TO_CHAR i = Some (CHARSET ! nat i)"
proof -
  let ?ks = "map int [0..<length CHARSET]"
  have d: "distinct ?ks" by (simp add: distinct_map)
  have "map_of (zip ?ks CHARSET) (?ks ! nat i) = Some (CHARSET ! nat i)"
    by (rule map_of_zip_nth) (use assms d in \<open>simp_all add: length_CHARSET\<close>)
  moreover have "?ks ! nat i = i" using assms by (simp add: length_CHARSET)
  ultimately show ?thesis
    unfolding INDEX_TO_CHAR_def enumerate_keys
    using d by (simp add: map_of_rev_distinct)
qed

lemma CHAR_TO_INDEX_nth:
  assumes "k < 29"
  shows "CHAR_TO_INDEX (CHARSET ! k) = Some (int k)"
proof -
  let ?vs = "map int [0..<length CHARSET]"
  have "map_of (zip CHARSET ?vs) (CHARSET ! k) = Some (?vs ! k)"
    by (rule map_of_zip_nth) (use assms distinct_CHARSET in \<open>simp_all add: length_CHARSET\<close>)
  then show ?thesis
    unfolding CHAR_TO_INDEX_def enumerate_vals
    using assms distinct_CHARSET by (simp add: map_of_rev_distinct length_CHARSET)
qed

lemma CHAR_TO_INDEX_None: "CHAR_TO_INDEX c = None \<longleftrightarrow> c \<notin> set CHARSET"
  unfolding CHAR_TO_INDEX_def enumerate_vals
  by (simp add: map_of_eq_None_iff flip: set_map)

lemma CHAR_TO_INDEX_SomeD:
  assumes "CHAR_TO_INDEX c = Some i"
  shows "0 \<le> i \<and> i < 29 \<and> CHARSET ! nat i = c"
proof -
  from assms have "c \<in> set CHARSET" using CHAR_TO_INDEX_None by force
  then obtain k where k: "k < 29" "CHARSET ! k = c"
    by (auto simp: in_set_conv_nth length_CHARSET)
  with CHAR_TO_INDEX_nth[of k] assms have "i = int k" by simp
  with k show ?thesis by simp
qed

section \<open>Facts about the digit codec\<close>

lemma int_to_base29_loop_eq:
  "int_to_base29_loop k n chars =
     Inr (chars @ map (\<lambda>i. CHARSET ! nat ((n div 29 ^ i) mod 29)) [0..<k])"
proof (induction k arbitrary: n chars)
  case 0
  then show ?case by simp
next
  case (Suc k)
  have m: "0 \<le> n mod 29" "n mod 29 < 29" by simp_all
  have shift: "map (\<lambda>i. CHARSET ! nat ((n div 29 ^ i) mod 29)) [0..<Suc k]
      = CHARSET ! nat (n mod 29) # map (\<lambda>i. CHARSET ! nat ((n div 29 div 29 ^ i) mod 29)) [0..<k]"
    by (simp add: upt_conv_Cons map_Suc_upt[symmetric] zdiv_zmult2_eq del: upt_Suc)
  show ?case
    using INDEX_TO_CHAR_Some[OF m] Suc.IH[of "n div 29"] shift
    by (simp add: BASE_eq del: upt_Suc)
qed

lemma int_to_base29_toDigits: "int_to_base29 n len = Inr (toDigits n len)"
proof -
  let ?f = "\<lambda>i. CHARSET ! nat ((n div 29 ^ i) mod 29)"
  have "rev (map ?f [0..<len]) = map (\<lambda>i. ?f (len - 1 - i)) [0..<len]"
    by (rule nth_equalityI) (simp_all add: rev_nth)
  then show ?thesis
    by (simp add: int_to_base29_def int_to_base29_loop_eq toDigits_def BASE_eq)
qed

lemma length_toDigits: "length (toDigits n len) = len"
  by (simp add: toDigits_def)

lemma toDigits_in_CHARSET: "set (toDigits n len) \<subseteq> set CHARSET"
proof -
  have "CHARSET ! nat (k mod 29) \<in> set CHARSET" for k :: int
    by (rule nth_mem) (simp add: length_CHARSET nat_less_iff)
  then show ?thesis
    by (auto simp: toDigits_def BASE_eq)
qed

lemma toDigits_mod: "toDigits (n mod 29 ^ len) len = toDigits n len"
proof -
  have "(n mod 29 ^ len div 29 ^ (len - 1 - i)) mod 29 = (n div 29 ^ (len - 1 - i)) mod 29"
    if "i < len" for i
  proof -
    from that have "len = (len - 1 - i) + Suc i" by simp
    then have e: "(29::int) ^ len = 29 ^ (len - 1 - i) * 29 ^ Suc i"
      by (metis power_add)
    have "n mod 29 ^ len div 29 ^ (len - 1 - i) = (n div 29 ^ (len - 1 - i)) mod 29 ^ Suc i"
      unfolding e by (simp add: zmod_zmult2_eq)
    then show ?thesis
      by (simp add: mod_mod_cancel)
  qed
  then show ?thesis
    by (simp add: toDigits_def BASE_eq)
qed

lemma toDigits_Suc:
  "toDigits n (Suc k) = CHARSET ! nat ((n div 29 ^ k) mod 29) # toDigits n k"
  by (rule nth_equalityI)
     (auto simp: toDigits_def BASE_eq nth_Cons' Suc_diff_Suc simp del: upt_Suc)

lemma base29_to_int_loop_toDigits:
  "base29_to_int_loop (toDigits n k) acc = Inr (acc * 29 ^ k + n mod 29 ^ k)"
proof (induction k arbitrary: acc)
  case 0
  then show ?case by (simp add: toDigits_def)
next
  case (Suc k)
  have m: "nat ((n div 29 ^ k) mod 29) < 29" by (simp add: nat_less_iff)
  have split: "n mod (29 * 29 ^ k) = 29 ^ k * ((n div 29 ^ k) mod 29) + n mod 29 ^ k"
    using zmod_zmult2_eq[of 29 n "29 ^ k"] by (simp add: mult.commute)
  have "base29_to_int_loop (toDigits n (Suc k)) acc
      = base29_to_int_loop (toDigits n k) (acc * 29 + (n div 29 ^ k) mod 29)"
    using CHAR_TO_INDEX_nth[OF m] by (simp add: toDigits_Suc BASE_eq)
  also have "\<dots> = Inr ((acc * 29 + (n div 29 ^ k) mod 29) * 29 ^ k + n mod 29 ^ k)"
    by (rule Suc.IH)
  also have "(acc * 29 + (n div 29 ^ k) mod 29) * 29 ^ k + n mod 29 ^ k
      = acc * 29 ^ Suc k + n mod 29 ^ Suc k"
    by (simp add: split algebra_simps)
  finally show ?case .
qed

lemma base29_to_int_toDigits: "base29_to_int (toDigits n k) = Inr (n mod 29 ^ k)"
  by (simp add: base29_to_int_def base29_to_int_loop_toDigits)

section \<open>Facts about the failures of decoding\<close>

lemma base29_to_int_loop_ok:
  "set s \<subseteq> set CHARSET \<Longrightarrow> \<exists>n. base29_to_int_loop s acc = Inr n"
proof (induction s arbitrary: acc)
  case Nil
  then show ?case by simp
next
  case (Cons c s)
  then have "CHAR_TO_INDEX c \<noteq> None" by (simp add: CHAR_TO_INDEX_None)
  then obtain i where "CHAR_TO_INDEX c = Some i" by blast
  with Cons show ?case by simp
qed

lemma base29_to_int_loop_bad:
  "\<not> set s \<subseteq> set CHARSET \<Longrightarrow>
     \<exists>c. c \<in> set s \<and> c \<notin> set CHARSET \<and> base29_to_int_loop s acc = Inl (InvalidSymbol c)"
proof (induction s arbitrary: acc)
  case Nil
  then show ?case by simp
next
  case (Cons c s)
  show ?case
  proof (cases "CHAR_TO_INDEX c")
    case None
    then have "c \<notin> set CHARSET" by (simp add: CHAR_TO_INDEX_None)
    with None show ?thesis by auto
  next
    case (Some i)
    then have "c \<in> set CHARSET" using CHAR_TO_INDEX_None by force
    with Cons.prems have "\<not> set s \<subseteq> set CHARSET" by simp
    from Cons.IH[OF this, of "acc * BASE + i"] Some show ?thesis by auto
  qed
qed

lemma base29_to_int_ok:
  "set s \<subseteq> set CHARSET \<Longrightarrow> \<exists>n. base29_to_int s = Inr n"
  by (simp add: base29_to_int_def base29_to_int_loop_ok)

lemma base29_to_int_bad:
  "\<not> set s \<subseteq> set CHARSET \<Longrightarrow>
     \<exists>c. c \<in> set s \<and> c \<notin> set CHARSET \<and> base29_to_int s = Inl (InvalidSymbol c)"
  by (simp add: base29_to_int_def base29_to_int_loop_bad)

lemma decode_short: "length code \<noteq> 10 \<Longrightarrow> decode code = Inl InvalidLength"
  by (simp add: decode_def)

lemma decode_ok:
  assumes "length code = 10" "set code \<subseteq> set CHARSET"
  shows "\<exists>r. decode code = Inr r"
proof -
  have "set (take 5 code) \<subseteq> set CHARSET" "set (drop 5 code) \<subseteq> set CHARSET"
    using assms(2) set_take_subset[of 5 code] set_drop_subset[of 5 code] by blast+
  then obtain a b where "base29_to_int (take 5 code) = Inr a" "base29_to_int (drop 5 code) = Inr b"
    using base29_to_int_ok by blast
  with assms(1) show ?thesis by (simp add: decode_def Let_def)
qed

lemma decode_bad:
  assumes "length code = 10" "\<not> set code \<subseteq> set CHARSET"
  shows "\<exists>c. c \<in> set code \<and> c \<notin> set CHARSET \<and> decode code = Inl (InvalidSymbol c)"
proof (cases "set (take 5 code) \<subseteq> set CHARSET")
  case False
  from base29_to_int_bad[OF this] obtain c where
    "c \<in> set (take 5 code)" "c \<notin> set CHARSET" "base29_to_int (take 5 code) = Inl (InvalidSymbol c)"
    by blast
  with assms(1) show ?thesis
    by (auto simp: decode_def Let_def dest: in_set_takeD)
next
  case True
  then obtain a where a: "base29_to_int (take 5 code) = Inr a"
    using base29_to_int_ok by blast
  have "set code = set (take 5 code) \<union> set (drop 5 code)"
    by (metis append_take_drop_id set_append)
  with True assms(2) have "\<not> set (drop 5 code) \<subseteq> set CHARSET" by auto
  from base29_to_int_bad[OF this] obtain c where
    "c \<in> set (drop 5 code)" "c \<notin> set CHARSET" "base29_to_int (drop 5 code) = Inl (InvalidSymbol c)"
    by blast
  with assms(1) a show ?thesis
    by (auto simp: decode_def Let_def dest: in_set_dropD)
qed

section \<open>Facts about rounding\<close>

lemma round_half_even_error: "\<bar>of_int (round_half_even r) - r\<bar> \<le> 1 / 2"
proof -
  have "of_int \<lfloor>r\<rfloor> \<le> r" "r < of_int \<lfloor>r\<rfloor> + 1" by linarith+
  then show ?thesis
    by (auto simp: round_half_even_def Let_def)
qed

lemma round_half_even_nonneg: "0 \<le> r \<Longrightarrow> 0 \<le> round_half_even r"
  by (auto simp: round_half_even_def Let_def)

lemma round_half_even_of_int: "round_half_even (of_int n) = n"
  by (simp add: round_half_even_def)

lemma round_half_even_le: "r \<le> of_int n \<Longrightarrow> round_half_even r \<le> n"
proof -
  assume a: "r \<le> of_int n"
  show ?thesis
  proof (cases "r = of_int n")
    case True
    then show ?thesis by (simp add: round_half_even_of_int)
  next
    case False
    with a have "r < of_int n" by simp
    then have "\<lfloor>r\<rfloor> < n" by (simp add: floor_less_iff)
    then show ?thesis by (auto simp: round_half_even_def Let_def)
  qed
qed

lemma round_half_even_ge: "of_int n \<le> r \<Longrightarrow> n \<le> round_half_even r"
proof -
  assume "of_int n \<le> r"
  then have "n \<le> \<lfloor>r\<rfloor>" by (simp add: le_floor_iff)
  then show ?thesis by (auto simp: round_half_even_def Let_def)
qed

text \<open>The binary exponent of a nonzero real.\<close>

lemma exponent_bounds:
  assumes "x \<noteq> 0"
  shows "2 powi \<lfloor>log 2 \<bar>x\<bar>\<rfloor> \<le> \<bar>x\<bar>" "\<bar>x\<bar> < 2 powi (\<lfloor>log 2 \<bar>x\<bar>\<rfloor> + 1)"
proof -
  from assms have pos: "0 < \<bar>x\<bar>" by simp
  have "2 powr (of_int \<lfloor>log 2 \<bar>x\<bar>\<rfloor>) \<le> \<bar>x\<bar> \<and> \<bar>x\<bar> < 2 powr (of_int (\<lfloor>log 2 \<bar>x\<bar>\<rfloor> + 1))"
    using floor_log_eq_powr_iff[OF pos, of 2 "\<lfloor>log 2 \<bar>x\<bar>\<rfloor>"] by simp
  then show "2 powi \<lfloor>log 2 \<bar>x\<bar>\<rfloor> \<le> \<bar>x\<bar>" "\<bar>x\<bar> < 2 powi (\<lfloor>log 2 \<bar>x\<bar>\<rfloor> + 1)"
    using powr_real_of_int'[of 2 "\<lfloor>log 2 \<bar>x\<bar>\<rfloor>"] powr_real_of_int'[of 2 "\<lfloor>log 2 \<bar>x\<bar>\<rfloor> + 1"]
    by simp_all
qed

lemma exponent_eq:
  assumes "2 powi e \<le> \<bar>x\<bar>" "\<bar>x\<bar> < 2 powi (e + 1)"
  shows "\<lfloor>log 2 \<bar>x\<bar>\<rfloor> = e"
proof -
  have "(0::real) < 2 powi e" by simp
  with assms(1) have pos: "0 < \<bar>x\<bar>" by linarith
  have "2 powr (of_int e) \<le> \<bar>x\<bar> \<and> \<bar>x\<bar> < 2 powr (of_int (e + 1))"
    using assms powr_real_of_int'[of 2 e] powr_real_of_int'[of 2 "e + 1"] by simp
  then show ?thesis
    using floor_log_eq_powr_iff[OF pos, of 2 e] by simp
qed

lemma round64_eval:
  assumes "2 powi e \<le> \<bar>x\<bar>" "\<bar>x\<bar> < 2 powi (e + 1)" "- 1022 \<le> e"
  shows "round64 x = of_int (round_half_even (x / 2 powi (e - 52))) * 2 powi (e - 52)"
proof -
  have "(0::real) < 2 powi e" by simp
  with assms(1) have "0 < \<bar>x\<bar>" by linarith
  then have "x \<noteq> 0" by simp
  with exponent_eq[OF assms(1,2)] assms(3) show ?thesis
    by (simp add: round64_def Let_def max_def)
qed

lemma round64_nonneg: "0 \<le> x \<Longrightarrow> 0 \<le> round64 x"
  by (auto simp: round64_def Let_def intro!: mult_nonneg_nonneg round_half_even_nonneg)

lemma round64_error:
  assumes "\<bar>x\<bar> < 2 powi k" "- 1021 \<le> k"
  shows "\<bar>round64 x - x\<bar> \<le> 2 powi (k - 54)"
proof (cases "x = 0")
  case True
  then show ?thesis by (simp add: round64_def)
next
  case False
  define e where "e = max \<lfloor>log 2 \<bar>x\<bar>\<rfloor> (- 1022)"
  define q :: real where "q = 2 powi (e - 52)"
  have q: "0 < q" by (simp add: q_def)
  have r: "round64 x = of_int (round_half_even (x / q)) * q"
    using False by (simp add: round64_def Let_def e_def q_def)
  have "2 powi \<lfloor>log 2 \<bar>x\<bar>\<rfloor> < (2::real) powi k"
    using exponent_bounds(1)[OF False] assms(1) by linarith
  then have "\<lfloor>log 2 \<bar>x\<bar>\<rfloor> < k"
    using power_int_increasing[of k "\<lfloor>log 2 \<bar>x\<bar>\<rfloor>" "2::real"] by (cases "k \<le> \<lfloor>log 2 \<bar>x\<bar>\<rfloor>") simp_all
  with assms(2) have "e \<le> k - 1" by (simp add: e_def)
  then have "q \<le> 2 powi (k - 53)"
    unfolding q_def by (intro power_int_increasing) simp_all
  moreover have "\<bar>round64 x - x\<bar> = \<bar>of_int (round_half_even (x / q)) - x / q\<bar> * q"
  proof -
    have "round64 x - x = (of_int (round_half_even (x / q)) - x / q) * q"
      using q by (simp add: r left_diff_distrib)
    then have "\<bar>round64 x - x\<bar> = \<bar>of_int (round_half_even (x / q)) - x / q\<bar> * \<bar>q\<bar>"
      by (simp only: abs_mult)
    with q show ?thesis by simp
  qed
  moreover have "\<bar>of_int (round_half_even (x / q)) - x / q\<bar> * q \<le> (1 / 2) * q"
    using q round_half_even_error[of "x / q"] by (intro mult_right_mono) simp_all
  moreover have "(2::real) powi (k - 54) = (1 / 2) * 2 powi (k - 53)"
    using power_int_add[of "2::real" "k - 53" "-1"] by (simp add: power_int_minus)
  ultimately show ?thesis by simp
qed

text \<open>
  The rounding is to nearest: the result is a float, and no float is closer to the
  exact value.  A float is \<open>m * 2 powi q\<close> with \<open>\<bar>m\<bar> \<le> 2 ^ 53\<close> and \<open>- 1074 \<le> q\<close>.
\<close>

lemma round_half_even_nearest: "\<bar>of_int (round_half_even y) - y\<bar> \<le> \<bar>of_int k - y\<bar>"
proof -
  have f: "of_int \<lfloor>y\<rfloor> \<le> y" "y < of_int \<lfloor>y\<rfloor> + 1" by linarith+
  show ?thesis
  proof (cases "k \<le> \<lfloor>y\<rfloor>")
    case True
    then have "real_of_int k \<le> of_int \<lfloor>y\<rfloor>" by simp
    with f show ?thesis by (auto simp: round_half_even_def Let_def)
  next
    case False
    then have "\<lfloor>y\<rfloor> + 1 \<le> k" by simp
    then have "real_of_int (\<lfloor>y\<rfloor> + 1) \<le> of_int k" by (simp only: of_int_le_iff)
    with f show ?thesis by (auto simp: round_half_even_def Let_def)
  qed
qed

lemma round64_quantum:
  assumes "x \<noteq> 0"
  defines "q \<equiv> max \<lfloor>log 2 \<bar>x\<bar>\<rfloor> (- 1022) - 52"
  shows "round64 x = of_int (round_half_even (x / 2 powi q)) * 2 powi q"
  using assms by (simp add: round64_def Let_def)

lemma round64_nearest_multiple:
  assumes "x \<noteq> 0"
  defines "q \<equiv> max \<lfloor>log 2 \<bar>x\<bar>\<rfloor> (- 1022) - 52"
  shows "\<bar>round64 x - x\<bar> \<le> \<bar>of_int c * 2 powi q - x\<bar>"
proof -
  have p: "(0::real) < 2 powi q" by simp
  have "round64 x - x = (of_int (round_half_even (x / 2 powi q)) - x / 2 powi q) * 2 powi q"
    using round64_quantum[OF assms(1)] p by (simp add: q_def left_diff_distrib)
  then have "\<bar>round64 x - x\<bar> = \<bar>of_int (round_half_even (x / 2 powi q)) - x / 2 powi q\<bar> * 2 powi q"
    using p by (simp add: abs_mult)
  also have "\<dots> \<le> \<bar>of_int c - x / 2 powi q\<bar> * 2 powi q"
    using p by (intro mult_right_mono round_half_even_nearest) simp
  also have "\<dots> = \<bar>(of_int c - x / 2 powi q) * 2 powi q\<bar>"
    using p by (simp add: abs_mult)
  also have "(of_int c - x / 2 powi q) * 2 powi q = of_int c * 2 powi q - x"
    using p by (simp add: left_diff_distrib)
  finally show ?thesis .
qed

lemma round64_nearest:
  assumes m: "\<bar>m\<bar> \<le> 2 ^ 53" and q: "- 1074 \<le> q"
  shows "\<bar>round64 x - x\<bar> \<le> \<bar>of_int m * 2 powi q - x\<bar>"
proof (cases "x = 0")
  case True
  then show ?thesis by (simp add: round64_def)
next
  case False
  define e where "e = max \<lfloor>log 2 \<bar>x\<bar>\<rfloor> (- 1022)"
  define q0 where "q0 = e - 52"
  note near = round64_nearest_multiple[OF False, folded e_def, folded q0_def]
  show ?thesis
  proof (cases "q0 \<le> q")
    case True
    have "(2::real) powi q = 2 powi (q - q0) * 2 powi q0"
      using power_int_add[of "2::real" "q - q0" q0] by simp
    also have "(2::real) powi (q - q0) = 2 ^ nat (q - q0)"
      using True by (simp add: power_int_def)
    finally have "real_of_int m * 2 powi q = of_int (m * 2 ^ nat (q - q0)) * 2 powi q0"
      by simp
    then show ?thesis by (simp only: near)
  next
    case False
    then have "q \<le> q0 - 1" by simp
    with q have "- 1022 < e" by (simp add: q0_def)
    then have e: "e = \<lfloor>log 2 \<bar>x\<bar>\<rfloor>" by (simp add: e_def max_def split: if_splits)
    have low: "2 powi e \<le> \<bar>x\<bar>"
      unfolding e by (rule exponent_bounds(1)[OF \<open>x \<noteq> 0\<close>])
    have "\<bar>real_of_int m * 2 powi q\<bar> = \<bar>real_of_int m\<bar> * 2 powi q"
      by (simp add: abs_mult)
    also have "\<dots> \<le> 2 ^ 53 * 2 powi (q0 - 1)"
    proof (intro mult_mono)
      have "\<bar>real_of_int m\<bar> = real_of_int \<bar>m\<bar>" by simp
      also have "\<dots> \<le> real_of_int (2 ^ 53)" using m by (simp only: of_int_le_iff)
      finally show "\<bar>real_of_int m\<bar> \<le> 2 ^ 53" by simp
      show "(2::real) powi q \<le> 2 powi (q0 - 1)"
        using \<open>q \<le> q0 - 1\<close> by (intro power_int_increasing) simp_all
    qed simp_all
    also have "(2::real) ^ 53 * 2 powi (q0 - 1) = 2 powi e"
      using power_int_add[of "2::real" 53 "q0 - 1"] by (simp add: q0_def)
    finally have v: "\<bar>real_of_int m * 2 powi q\<bar> \<le> 2 powi e" .
    define c :: int where "c = (if 0 < x then 2 ^ 52 else - (2 ^ 52))"
    have "(2::real) ^ 52 * 2 powi q0 = 2 powi e"
      using power_int_add[of "2::real" 52 q0] by (simp add: q0_def)
    then have b: "real_of_int c * 2 powi q0 = (if 0 < x then 2 powi e else - (2 powi e))"
      by (simp add: c_def)
    have "\<bar>real_of_int c * 2 powi q0 - x\<bar> = \<bar>x\<bar> - 2 powi e"
      using low \<open>x \<noteq> 0\<close> unfolding b by (simp split: if_splits)
    with near[of c] have "\<bar>round64 x - x\<bar> \<le> \<bar>x\<bar> - 2 powi e" by simp
    also have "\<dots> \<le> \<bar>x\<bar> - \<bar>real_of_int m * 2 powi q\<bar>" using v by simp
    also have "\<dots> \<le> \<bar>of_int m * 2 powi q - x\<bar>" by simp
    finally show ?thesis .
  qed
qed

lemma round64_representable:
  "\<exists>m q. round64 x = of_int m * 2 powi q \<and> \<bar>m\<bar> \<le> 2 ^ 53 \<and> - 1074 \<le> q"
proof (cases "x = 0")
  case True
  then have "round64 x = of_int 0 * 2 powi (- 1074)" by (simp add: round64_def)
  then show ?thesis by (intro exI[of _ 0] exI[of _ "- 1074"]) simp
next
  case False
  define e where "e = max \<lfloor>log 2 \<bar>x\<bar>\<rfloor> (- 1022)"
  define q where "q = e - 52"
  define y where "y = x / 2 powi q"
  have r: "round64 x = of_int (round_half_even y) * 2 powi q"
    using round64_quantum[OF False] by (simp add: y_def q_def e_def)
  have "\<bar>x\<bar> < 2 powi (\<lfloor>log 2 \<bar>x\<bar>\<rfloor> + 1)" by (rule exponent_bounds(2)[OF False])
  also have "\<dots> \<le> 2 powi (e + 1)"
    by (intro power_int_increasing) (simp_all add: e_def)
  also have "(2::real) powi (e + 1) = 2 ^ 53 * 2 powi q"
    using power_int_add[of "2::real" 53 q] by (simp add: q_def add.commute)
  finally have "\<bar>y\<bar> < 2 ^ 53"
    by (simp add: y_def abs_divide pos_divide_less_eq)
  then have "y \<le> of_int (2 ^ 53)" "of_int (- (2 ^ 53)) \<le> y" by simp_all
  then have "round_half_even y \<le> 2 ^ 53" "- (2 ^ 53) \<le> round_half_even y"
    by (simp_all only: round_half_even_le round_half_even_ge)
  then have "\<bar>round_half_even y\<bar> \<le> 2 ^ 53" by simp
  moreover have "- 1074 \<le> q" by (simp add: q_def e_def)
  ultimately show ?thesis using r by blast
qed

lemma round64_fixes_floats:
  assumes "\<bar>m\<bar> \<le> 2 ^ 53" "- 1074 \<le> q"
  shows "is_float64 (of_int m * 2 powi q)"
  using round64_nearest[OF assms, of "of_int m * 2 powi q"] by (simp add: is_float64_def)

lemma round64_idempotent: "is_float64 (round64 x)"
  using round64_representable[of x] round64_fixes_floats by auto

text \<open>Hence rounding never crosses a float: it is monotone against every float bound.\<close>

lemma round64_le_float:
  assumes "\<bar>m\<bar> \<le> 2 ^ 53" "- 1074 \<le> q" "x \<le> of_int m * 2 powi q"
  shows "round64 x \<le> of_int m * 2 powi q"
proof (rule ccontr)
  assume "\<not> round64 x \<le> of_int m * 2 powi q"
  with assms(3) have "\<bar>of_int m * 2 powi q - x\<bar> < \<bar>round64 x - x\<bar>" by simp
  with round64_nearest[OF assms(1,2), of x] show False by simp
qed

lemma round64_ge_float:
  assumes "\<bar>m\<bar> \<le> 2 ^ 53" "- 1074 \<le> q" "of_int m * 2 powi q \<le> x"
  shows "of_int m * 2 powi q \<le> round64 x"
proof (rule ccontr)
  assume "\<not> of_int m * 2 powi q \<le> round64 x"
  with assms(3) have "\<bar>of_int m * 2 powi q - x\<bar> < \<bar>round64 x - x\<bar>" by simp
  with round64_nearest[OF assms(1,2), of x] show False by simp
qed

lemma round64_le_int:
  assumes "\<bar>m\<bar> \<le> 2 ^ 53" "x \<le> of_int m"
  shows "round64 x \<le> of_int m"
  using round64_le_float[of m 0 x] assms by simp

lemma round64_ge_int:
  assumes "\<bar>m\<bar> \<le> 2 ^ 53" "of_int m \<le> x"
  shows "of_int m \<le> round64 x"
  using round64_ge_float[of m 0 x] assms by simp

lemma float_constants:
  "is_float64 90" "is_float64 180" "is_float64 360" "is_float64 (2 ^ 24 - 1)"
  using round64_fixes_floats[of 90 0] round64_fixes_floats[of 180 0]
    round64_fixes_floats[of 360 0] round64_fixes_floats[of 16777215 0]
  by simp_all

section \<open>Rounding error of one axis\<close>

lemma abs_scaled_le:
  fixes c d b C :: real
  assumes "\<bar>d\<bar> \<le> b" "0 \<le> c" "c \<le> C"
  shows "\<bar>c * d\<bar> \<le> C * b"
proof -
  have "\<bar>c * d\<bar> = c * \<bar>d\<bar>" using assms(2) by (simp add: abs_mult)
  also have "\<dots> \<le> C * b" using assms by (intro mult_mono) simp_all
  finally show ?thesis .
qed

lemma quantize_steps:
  fixes t S :: real
  assumes S: "180 \<le> S" "S \<le> 360" and t: "0 \<le> t" "t \<le> S"
  defines "a \<equiv> round64 t"
  defines "n \<equiv> round64 (a / S)"
  defines "y \<equiv> round64 (n * 16777215)"
  shows "0 \<le> y" and "y < 16777216"
    and "\<bar>a - t\<bar> \<le> 1 / 2 ^ 45" and "\<bar>n - a / S\<bar> \<le> 1 / 2 ^ 53"
    and "\<bar>y - n * 16777215\<bar> \<le> 1 / 2 ^ 29"
proof -
  define r where "r = a / S"
  have a0: "0 \<le> a" unfolding a_def using t by (intro round64_nonneg)
  have "\<bar>t\<bar> < 2 powi 9" using t S by simp
  from round64_error[OF this] show ea: "\<bar>a - t\<bar> \<le> 1 / 2 ^ 45"
    by (simp add: a_def power_int_minus_divide)
  have r0: "0 \<le> r" using a0 S by (simp add: r_def)
  have "a \<le> (1 + 1 / 2 ^ 45) * S" using ea t S by (simp only: abs_le_iff) simp
  then have r1: "r \<le> 1 + 1 / 2 ^ 45"
    unfolding r_def by (subst pos_divide_le_eq) (use S in simp_all)
  have n0: "0 \<le> n" unfolding n_def r_def[symmetric] using r0 by (intro round64_nonneg)
  have "\<bar>r\<bar> < 2 powi 1" using r0 r1 by simp
  from round64_error[OF this] have en: "\<bar>n - r\<bar> \<le> 1 / 2 ^ 53"
    by (simp add: n_def r_def power_int_minus_divide)
  then show "\<bar>n - a / S\<bar> \<le> 1 / 2 ^ 53" by (simp only: r_def)
  have n1: "n \<le> 1 + 1 / 2 ^ 45 + 1 / 2 ^ 53" using en r1 by (simp only: abs_le_iff) simp
  show y0: "0 \<le> y" unfolding y_def using n0 by (intro round64_nonneg) simp
  have "\<bar>n * 16777215\<bar> < 2 powi 25" using n0 n1 by simp
  from round64_error[OF this] show ey: "\<bar>y - n * 16777215\<bar> \<le> 1 / 2 ^ 29"
    by (simp add: y_def power_int_minus_divide)
  show "y < 16777216" using ey n1 by (simp only: abs_le_iff) simp
qed


lemma axis_roundtrip:
  fixes t S :: real
  assumes S: "180 \<le> S" "S \<le> 360" and t: "0 \<le> t" "t \<le> S"
  defines "k \<equiv> \<lfloor>round64 (round64 (round64 t / S) * 16777215)\<rfloor>"
  defines "l \<equiv> round64 (round64 (round64 (of_int k / 16777215) * S) - S / 2)"
  shows "0 \<le> k" and "k \<le> 16777215"
    and "\<bar>l - (t - S / 2)\<bar> \<le> S / 16777215 + 2 / 10 ^ 13"
proof -
  define a where "a = round64 t"
  define n where "n = round64 (a / S)"
  define y where "y = round64 (n * 16777215)"
  have qs: "0 \<le> y" "y < 16777216" "\<bar>a - t\<bar> \<le> 1 / 2 ^ 45"
    "\<bar>n - a / S\<bar> \<le> 1 / 2 ^ 53" "\<bar>y - n * 16777215\<bar> \<le> 1 / 2 ^ 29"
    unfolding y_def n_def a_def by (rule quantize_steps[OF S t])+
  have k: "k = \<lfloor>y\<rfloor>" by (simp add: k_def y_def n_def a_def)
  show k0: "0 \<le> k" using qs(1) by (simp add: k)
  have "k < 16777216" unfolding k using qs(2) by (simp add: floor_less_iff)
  then show k1: "k \<le> 16777215" by simp
  define kr where "kr = real_of_int k"
  have ky: "kr \<le> y" "y < kr + 1" unfolding kr_def k by linarith+
  have kr: "0 \<le> kr" "kr \<le> 16777215" using k0 k1 by (simp_all add: kr_def)
  define c where "c = kr / 16777215"
  have c: "0 \<le> c" "c \<le> 1" using kr by (simp_all add: c_def)
  define m where "m = round64 c"
  have m0: "0 \<le> m" unfolding m_def using c(1) by (intro round64_nonneg)
  have "\<bar>c\<bar> < 2 powi 1" using c by simp
  from round64_error[OF this] have em: "\<bar>m - c\<bar> \<le> 1 / 2 ^ 53"
    by (simp add: m_def power_int_minus_divide)
  have m1: "m - 1 \<le> 1 / 2 ^ 53" using em c by (simp only: abs_le_iff) simp
  define w where "w = m * S"
  have w0: "0 \<le> w" using m0 S by (simp add: w_def)
  have "(m - 1) * S \<le> (1 / 2 ^ 53) * 360"
    using m1 S by (intro mult_mono) simp_all
  then have w1: "w \<le> S + 360 / 2 ^ 53" by (simp add: w_def left_diff_distrib)
  define p where "p = round64 w"
  have p0: "0 \<le> p" unfolding p_def using w0 by (intro round64_nonneg)
  have "\<bar>w\<bar> < 2 powi 9" using w0 w1 S by simp
  from round64_error[OF this] have ep: "\<bar>p - w\<bar> \<le> 1 / 2 ^ 45"
    by (simp add: p_def power_int_minus_divide)
  define v where "v = p - S / 2"
  have "\<bar>v\<bar> < 2 powi 8"
    using p0 ep w1 S unfolding v_def by (simp only: abs_le_iff abs_less_iff) simp
  from round64_error[OF this] have el: "\<bar>round64 v - v\<bar> \<le> 1 / 2 ^ 46"
    by (simp add: power_int_minus_divide)
  have l: "l = round64 v"
    by (simp add: l_def v_def p_def w_def m_def c_def kr_def)
  define g where "g = S / 16777215"
  have g: "0 \<le> g" "g \<le> 360 / 16777215" using S by (simp_all add: g_def)
  define u1 where "u1 = S * (m - c)"
  define u2 where "u2 = g * (kr - y)"
  define u3 where "u3 = g * (y - n * 16777215)"
  define u4 where "u4 = S * (n - a / S)"
  have S0: "0 \<le> S" using S by simp
  have b1: "\<bar>u1\<bar> \<le> 360 * (1 / 2 ^ 53)"
    unfolding u1_def by (rule abs_scaled_le[OF em S0 S(2)])
  have "\<bar>kr - y\<bar> \<le> 1" using ky by simp
  then have b2: "\<bar>u2\<bar> \<le> g * 1"
    unfolding u2_def by (rule abs_scaled_le) (use g in simp_all)
  have b3: "\<bar>u3\<bar> \<le> 360 / 16777215 * (1 / 2 ^ 29)"
    unfolding u3_def by (rule abs_scaled_le[OF qs(5) g])
  have b4: "\<bar>u4\<bar> \<le> 360 * (1 / 2 ^ 53)"
    unfolding u4_def by (rule abs_scaled_le[OF qs(4) S0 S(2)])
  have e1: "u1 = w - S * c" by (simp add: u1_def w_def algebra_simps)
  have e2: "u2 = S * c - g * y" by (simp add: u2_def g_def c_def field_simps)
  have e3: "u3 = g * y - S * n" using S by (simp add: u3_def g_def field_simps)
  have e4: "u4 = S * n - a" using S by (simp add: u4_def field_simps)
  have "l - (t - S / 2) = (round64 v - v) + (p - w) + u1 + u2 + u3 + u4 + (a - t)"
    by (simp add: l v_def e1 e2 e3 e4)
  moreover have "\<bar>(round64 v - v) + (p - w) + u1 + u2 + u3 + u4 + (a - t)\<bar>
      \<le> g + 2 / 10 ^ 13"
    using el ep b1 b2 b3 b4 qs(3) by (simp only: abs_le_iff) simp
  ultimately show "\<bar>l - (t - S / 2)\<bar> \<le> S / 16777215 + 2 / 10 ^ 13"
    by (simp add: g_def)
qed

section \<open>Facts about the quantizer\<close>

lemma latInt_eq:
  "latInt lat = \<lfloor>round64 (round64 (round64 (lat + 90) / 180) * 16777215)\<rfloor>"
  by (simp add: latInt_def fadd_def fdiv_def fmul_def)

lemma lonInt_eq:
  "lonInt lon = \<lfloor>round64 (round64 (round64 (lon + 180) / 360) * 16777215)\<rfloor>"
  by (simp add: lonInt_def fadd_def fdiv_def fmul_def)

lemma latInt_bounds:
  assumes "- 90 \<le> lat" "lat \<le> 90"
  shows "0 \<le> latInt lat" "latInt lat \<le> 16777215"
  using axis_roundtrip(1,2)[of 180 "lat + 90"] assms by (simp_all add: latInt_eq)

lemma lonInt_bounds:
  assumes "- 180 \<le> lon" "lon \<le> 180"
  shows "0 \<le> lonInt lon" "lonInt lon \<le> 16777215"
  using axis_roundtrip(1,2)[of 360 "lon + 180"] assms by (simp_all add: lonInt_eq)

lemma encode_Inr:
  assumes "- 90 \<le> lat" "lat \<le> 90" "- 180 \<le> lon" "lon \<le> 180"
  shows "encode lat lon = Inr (toDigits (latInt lat) 5 @ toDigits (lonInt lon) 5)"
  using assms by (simp add: encode_def Let_def int_to_base29_toDigits latInt_def lonInt_def)

lemma encode_lat_error: "\<not> (- 90 \<le> lat \<and> lat \<le> 90) \<Longrightarrow> encode lat lon = Inl LatOutOfRange"
  by (simp add: encode_def)

lemma encode_lon_error:
  "- 90 \<le> lat \<Longrightarrow> lat \<le> 90 \<Longrightarrow> \<not> (- 180 \<le> lon \<and> lon \<le> 180) \<Longrightarrow>
     encode lat lon = Inl LonOutOfRange"
  by (simp add: encode_def)

lemma decode_fields:
  "decode (toDigits a 5 @ toDigits b 5) =
     Inr (fsub (fmul (fdiv (of_int (a mod 29 ^ 5)) (2 ^ 24 - 1)) 180) 90,
          fsub (fmul (fdiv (of_int (b mod 29 ^ 5)) (2 ^ 24 - 1)) 360) 180)"
  by (simp add: decode_def length_toDigits base29_to_int_toDigits Let_def)

lemma roundtrip_Inr:
  assumes "- 90 \<le> lat" "lat \<le> 90" "- 180 \<le> lon" "lon \<le> 180"
  shows "roundtrip lat lon =
     Inr (fsub (fmul (fdiv (of_int (latInt lat)) (2 ^ 24 - 1)) 180) 90,
          fsub (fmul (fdiv (of_int (lonInt lon)) (2 ^ 24 - 1)) 360) 180)"
proof -
  have "latInt lat mod 29 ^ 5 = latInt lat" "lonInt lon mod 29 ^ 5 = lonInt lon"
    using latInt_bounds[OF assms(1,2)] lonInt_bounds[OF assms(3,4)] by simp_all
  then show ?thesis
    by (simp add: roundtrip_def encode_Inr[OF assms] decode_fields)
qed

lemma lat_roundtrip_error:
  assumes "- 90 \<le> lat" "lat \<le> 90"
  shows "\<bar>fsub (fmul (fdiv (of_int (latInt lat)) (2 ^ 24 - 1)) 180) 90 - lat\<bar>
           \<le> 180 / (2 ^ 24 - 1) + 2 / 10 ^ 13"
  using axis_roundtrip(3)[of 180 "lat + 90"] assms
  by (simp add: latInt_eq fsub_def fmul_def fdiv_def)

lemma lon_roundtrip_error:
  assumes "- 180 \<le> lon" "lon \<le> 180"
  shows "\<bar>fsub (fmul (fdiv (of_int (lonInt lon)) (2 ^ 24 - 1)) 360) 180 - lon\<bar>
           \<le> 360 / (2 ^ 24 - 1) + 2 / 10 ^ 13"
  using axis_roundtrip(3)[of 360 "lon + 180"] assms
  by (simp add: lonInt_eq fsub_def fmul_def fdiv_def)

text \<open>
  The scaled float stays within \<open>1e-8\<close> of the exact scaled coordinate, so the integer
  of \<open>encode\<close> is the exact floor unless the exact value lies within \<open>1e-8\<close> of an
  integer, and is never more than one away from it.
\<close>

lemma quantize_error:
  fixes t S :: real
  assumes S: "180 \<le> S" "S \<le> 360" and t: "0 \<le> t" "t \<le> S"
  shows "\<bar>round64 (round64 (round64 t / S) * 16777215) - t / S * 16777215\<bar> \<le> 1 / 10 ^ 8"
proof -
  define a where "a = round64 t"
  define n where "n = round64 (a / S)"
  define y where "y = round64 (n * 16777215)"
  have qs: "\<bar>a - t\<bar> \<le> 1 / 2 ^ 45" "\<bar>n - a / S\<bar> \<le> 1 / 2 ^ 53"
    "\<bar>y - n * 16777215\<bar> \<le> 1 / 2 ^ 29"
    unfolding y_def n_def a_def by (rule quantize_steps[OF S t])+
  define g where "g = 16777215 / S"
  have g0: "0 \<le> g" using S by (simp add: g_def)
  have g1: "g \<le> 16777215 / 180"
    unfolding g_def using S by (intro divide_left_mono) simp_all
  define u1 where "u1 = 16777215 * (n - a / S)"
  define u2 where "u2 = g * (a - t)"
  have b1: "\<bar>u1\<bar> \<le> 16777215 * (1 / 2 ^ 53)"
    unfolding u1_def by (rule abs_scaled_le[OF qs(2)]) simp_all
  have b2: "\<bar>u2\<bar> \<le> 16777215 / 180 * (1 / 2 ^ 45)"
    unfolding u2_def by (rule abs_scaled_le[OF qs(1) g0 g1])
  have e1: "u1 = n * 16777215 - g * a" using S by (simp add: u1_def g_def field_simps)
  have e2: "u2 = g * a - t / S * 16777215" using S by (simp add: u2_def g_def field_simps)
  have eq: "y - t / S * 16777215 = (y - n * 16777215) + u1 + u2"
    by (simp add: e1 e2)
  have "\<bar>(y - n * 16777215) + u1 + u2\<bar> \<le> 1 / 10 ^ 8"
    using qs(3) b1 b2 by (simp only: abs_le_iff) simp
  then have "\<bar>y - t / S * 16777215\<bar> \<le> 1 / 10 ^ 8"
    by (simp only: eq)
  then show ?thesis
    unfolding y_def n_def a_def .
qed

lemma floor_near:
  fixes y z d :: real
  assumes "\<bar>y - z\<bar> \<le> d"
  shows "\<lfloor>z - d\<rfloor> \<le> \<lfloor>y\<rfloor>" "\<lfloor>y\<rfloor> \<le> \<lfloor>z + d\<rfloor>"
  using assms by (auto intro!: floor_mono)

lemma floor_window:
  fixes z :: real
  shows "\<lfloor>z\<rfloor> - 1 \<le> \<lfloor>z - 1 / 10 ^ 8\<rfloor>" "\<lfloor>z + 1 / 10 ^ 8\<rfloor> \<le> \<lfloor>z\<rfloor> + 1"
proof -
  have "\<lfloor>z - 1\<rfloor> \<le> \<lfloor>z - 1 / 10 ^ 8\<rfloor>" by (intro floor_mono) simp
  then show "\<lfloor>z\<rfloor> - 1 \<le> \<lfloor>z - 1 / 10 ^ 8\<rfloor>" by simp
  have "\<lfloor>z + 1 / 10 ^ 8\<rfloor> \<le> \<lfloor>z + 1\<rfloor>" by (intro floor_mono) simp
  then show "\<lfloor>z + 1 / 10 ^ 8\<rfloor> \<le> \<lfloor>z\<rfloor> + 1" by simp
qed

lemma latInt_near_exact:
  assumes "- 90 \<le> lat" "lat \<le> 90"
  shows "\<lfloor>latNorm lat * (2 ^ 24 - 1) - 1 / 10 ^ 8\<rfloor> \<le> latInt lat"
    and "latInt lat \<le> \<lfloor>latNorm lat * (2 ^ 24 - 1) + 1 / 10 ^ 8\<rfloor>"
proof -
  have "\<bar>round64 (round64 (round64 (lat + 90) / 180) * 16777215) - (lat + 90) / 180 * 16777215\<bar>
      \<le> 1 / 10 ^ 8"
    using quantize_error[of 180 "lat + 90"] assms by simp
  from floor_near[OF this] show
    "\<lfloor>latNorm lat * (2 ^ 24 - 1) - 1 / 10 ^ 8\<rfloor> \<le> latInt lat"
    "latInt lat \<le> \<lfloor>latNorm lat * (2 ^ 24 - 1) + 1 / 10 ^ 8\<rfloor>"
    by (simp_all add: latInt_eq latNorm_def)
qed

lemma lonInt_near_exact:
  assumes "- 180 \<le> lon" "lon \<le> 180"
  shows "\<lfloor>lonNorm lon * (2 ^ 24 - 1) - 1 / 10 ^ 8\<rfloor> \<le> lonInt lon"
    and "lonInt lon \<le> \<lfloor>lonNorm lon * (2 ^ 24 - 1) + 1 / 10 ^ 8\<rfloor>"
proof -
  have "\<bar>round64 (round64 (round64 (lon + 180) / 360) * 16777215) - (lon + 180) / 360 * 16777215\<bar>
      \<le> 1 / 10 ^ 8"
    using quantize_error[of 360 "lon + 180"] assms by simp
  from floor_near[OF this] show
    "\<lfloor>lonNorm lon * (2 ^ 24 - 1) - 1 / 10 ^ 8\<rfloor> \<le> lonInt lon"
    "lonInt lon \<le> \<lfloor>lonNorm lon * (2 ^ 24 - 1) + 1 / 10 ^ 8\<rfloor>"
    by (simp_all add: lonInt_eq lonNorm_def)
qed

lemma latInt_within_one:
  assumes "- 90 \<le> lat" "lat \<le> 90"
  shows "exactLatInt lat - 1 \<le> latInt lat" "latInt lat \<le> exactLatInt lat + 1"
  using latInt_near_exact[OF assms] floor_window[of "latNorm lat * (2 ^ 24 - 1)"]
  unfolding exactLatInt_def by linarith+

lemma lonInt_within_one:
  assumes "- 180 \<le> lon" "lon \<le> 180"
  shows "exactLonInt lon - 1 \<le> lonInt lon" "lonInt lon \<le> exactLonInt lon + 1"
  using lonInt_near_exact[OF assms] floor_window[of "lonNorm lon * (2 ^ 24 - 1)"]
  unfolding exactLonInt_def by linarith+

text \<open>
  Concrete values.  The Python literal \<open>-8.5271882133\<close> denotes the float
  \<open>- 1200095051872999 / 2 ^ 47\<close>.
\<close>

lemma latInt_example: "latInt (- (1200095051872999 / 2 ^ 47)) = 7593815"
proof -
  have s1: "round64 (- (1200095051872999 / 2 ^ 47) + 90) = 1433284862513315 / 2 ^ 44"
    by (subst round64_eval[where e = 6]) (simp_all add: round_half_even_def)
  have s2: "round64 (1433284862513315 / 2 ^ 44 / 180) = 2038449582241159 / 2 ^ 52"
    by (subst round64_eval[where e = "- 2"]) (simp_all add: round_half_even_def)
  have s3: "round64 (2038449582241159 / 2 ^ 52 * (2 ^ 24 - 1)) = 8153797842960383 / 2 ^ 30"
    by (subst round64_eval[where e = 22]) (simp_all add: round_half_even_def)
  show ?thesis
    unfolding latInt_def fadd_def fdiv_def fmul_def s1 s2 s3 by simp
qed

lemma lat_decode_example:
  "fsub (fmul (fdiv (of_int 7593815) (2 ^ 24 - 1)) 180) 90 = - (600048280911265 / 2 ^ 46)"
proof -
  have s1: "round64 (of_int 7593815 / (2 ^ 24 - 1)) = 8153797255222749 / 2 ^ 54"
    by (subst round64_eval[where e = "- 2"]) (simp_all add: round_half_even_def)
  have s2: "round64 (8153797255222749 / 2 ^ 54 * 180) = 5733138695078495 / 2 ^ 46"
    by (subst round64_eval[where e = 6]) (simp_all add: round_half_even_def)
  have s3: "round64 (5733138695078495 / 2 ^ 46 - 90) = - (600048280911265 / 2 ^ 46)"
    by (subst round64_eval[where e = 3]) (simp_all add: round_half_even_def)
  show ?thesis
    unfolding fsub_def fmul_def fdiv_def s1 s2 s3 ..
qed

lemma lonInt_zero: "lonInt 0 = 8388607"
proof -
  have s1: "round64 (0 + 180) = 180"
    by (subst round64_eval[where e = 7]) (simp_all add: round_half_even_def)
  have s2: "round64 (180 / 360) = 1 / 2"
    by (subst round64_eval[where e = "- 1"]) (simp_all add: round_half_even_def)
  have s3: "round64 (1 / 2 * (2 ^ 24 - 1)) = 16777215 / 2"
    by (subst round64_eval[where e = 22]) (simp_all add: round_half_even_def)
  show ?thesis
    unfolding lonInt_def fadd_def fdiv_def fmul_def s1 s2 s3 by simp
qed

lemma lon_decode_zero:
  "fsub (fmul (fdiv (of_int 8388607) (2 ^ 24 - 1)) 360) 180 = - (188743691 / 2 ^ 44)"
proof -
  have s1: "round64 (of_int 8388607 / (2 ^ 24 - 1)) = 281474959933439 / 2 ^ 49"
    by (subst round64_eval[where e = "- 2"]) (simp_all add: round_half_even_def)
  have s2: "round64 (281474959933439 / 2 ^ 49 * 360) = 3166593299251189 / 2 ^ 44"
    by (subst round64_eval[where e = 7]) (simp_all add: round_half_even_def)
  have s3: "round64 (3166593299251189 / 2 ^ 44 - 180) = - (188743691 / 2 ^ 44)"
    by (subst round64_eval[where e = "- 17"]) (simp_all add: round_half_even_def)
  show ?thesis
    unfolding fsub_def fmul_def fdiv_def s1 s2 s3 ..
qed

lemma float_example: "is_float64 (- (1200095051872999 / 2 ^ 47))"
  unfolding is_float64_def
  by (subst round64_eval[where e = 3]) (simp_all add: round_half_even_def)

lemma base29_to_int_nines: "base29_to_int ''99999'' = Inr 20511148"
proof -
  have "toDigits 20511148 5 = ''99999''"
    by (simp add: toDigits_def BASE_eq CHARSET_def upt_rec)
  then show ?thesis using base29_to_int_toDigits[of 20511148 5] by simp
qed

lemma decode_nines:
  "decode ''9999999999'' = Inr (2288053041297629 / 2 ^ 44, 2288053041297629 / 2 ^ 43)"
proof -
  have s1: "round64 (of_int 20511148 / (2 ^ 24 - 1)) = 1376479923660469 / 2 ^ 50"
    by (subst round64_eval[where e = 0]) (simp_all add: round_half_even_def)
  have s2: "round64 (1376479923660469 / 2 ^ 50 * 180) = 3871349785295069 / 2 ^ 44"
    by (subst round64_eval[where e = 7]) (simp_all add: round_half_even_def)
  have s3: "round64 (3871349785295069 / 2 ^ 44 - 90) = 2288053041297629 / 2 ^ 44"
    by (subst round64_eval[where e = 7]) (simp_all add: round_half_even_def)
  have s4: "round64 (1376479923660469 / 2 ^ 50 * 360) = 3871349785295069 / 2 ^ 43"
    by (subst round64_eval[where e = 8]) (simp_all add: round_half_even_def)
  have s5: "round64 (3871349785295069 / 2 ^ 43 - 180) = 2288053041297629 / 2 ^ 43"
    by (subst round64_eval[where e = 8]) (simp_all add: round_half_even_def)
  have "decode ''9999999999'' =
      Inr (fsub (fmul (fdiv (of_int 20511148) (2 ^ 24 - 1)) 180) 90,
           fsub (fmul (fdiv (of_int 20511148) (2 ^ 24 - 1)) 360) 180)"
    by (simp add: decode_def base29_to_int_nines)
  then show ?thesis
    unfolding fsub_def fmul_def fdiv_def s1 s2 s3 s4 s5 .
qed

text \<open>
  A quantized integer in \<open>[0, 2^24 - 1]\<close> decodes to a coordinate inside the valid range,
  so the round trip of a valid coordinate is a valid coordinate.
\<close>

lemma dequantize_range:
  fixes k :: int
  assumes k: "0 \<le> k" "k \<le> 16777215"
  shows "- 90 \<le> fsub (fmul (fdiv (of_int k) (2 ^ 24 - 1)) 180) 90"
    and "fsub (fmul (fdiv (of_int k) (2 ^ 24 - 1)) 180) 90 \<le> 90"
    and "- 180 \<le> fsub (fmul (fdiv (of_int k) (2 ^ 24 - 1)) 360) 180"
    and "fsub (fmul (fdiv (of_int k) (2 ^ 24 - 1)) 360) 180 \<le> 180"
proof -
  define m where "m = round64 (of_int k / (2 ^ 24 - 1))"
  have m0: "0 \<le> m" unfolding m_def using k by (intro round64_nonneg) simp
  have m1: "m \<le> 1" unfolding m_def using k round64_le_int[of 1 "of_int k / (2 ^ 24 - 1)"] by simp
  define p where "p = round64 (m * 180)"
  define r where "r = round64 (m * 360)"
  have p0: "0 \<le> p" unfolding p_def using m0 by (intro round64_nonneg) simp
  have p1: "p \<le> 180" unfolding p_def using m1 round64_le_int[of 180 "m * 180"] by simp
  have r0: "0 \<le> r" unfolding r_def using m0 by (intro round64_nonneg) simp
  have r1: "r \<le> 360" unfolding r_def using m1 round64_le_int[of 360 "m * 360"] by simp
  show "- 90 \<le> fsub (fmul (fdiv (of_int k) (2 ^ 24 - 1)) 180) 90"
    using p0 round64_ge_int[of "- 90" "p - 90"] by (simp add: fsub_def fmul_def fdiv_def m_def p_def)
  show "fsub (fmul (fdiv (of_int k) (2 ^ 24 - 1)) 180) 90 \<le> 90"
    using p1 round64_le_int[of 90 "p - 90"] by (simp add: fsub_def fmul_def fdiv_def m_def p_def)
  show "- 180 \<le> fsub (fmul (fdiv (of_int k) (2 ^ 24 - 1)) 360) 180"
    using r0 round64_ge_int[of "- 180" "r - 180"] by (simp add: fsub_def fmul_def fdiv_def m_def r_def)
  show "fsub (fmul (fdiv (of_int k) (2 ^ 24 - 1)) 360) 180 \<le> 180"
    using r1 round64_le_int[of 180 "r - 180"] by (simp add: fsub_def fmul_def fdiv_def m_def r_def)
qed

lemma roundtrip_in_range:
  assumes "- 90 \<le> lat" "lat \<le> 90" "- 180 \<le> lon" "lon \<le> 180"
  shows "\<exists>lat' lon'. roundtrip lat lon = Inr (lat', lon') \<and>
           - 90 \<le> lat' \<and> lat' \<le> 90 \<and> - 180 \<le> lon' \<and> lon' \<le> 180"
  using roundtrip_Inr[OF assms] dequantize_range(1,2)[OF latInt_bounds[OF assms(1,2)]]
    dequantize_range(3,4)[OF lonInt_bounds[OF assms(3,4)]]
  by simp

section \<open>Boundary and sample values\<close>

lemma latInt_north: "latInt 90 = 16777215"
proof -
  have s1: "round64 (90 + 90) = 180"
    by (subst round64_eval[where e = 7]) (simp_all add: round_half_even_def)
  have s2: "round64 (180 / 180) = 1"
    by (subst round64_eval[where e = 0]) (simp_all add: round_half_even_def)
  have s3: "round64 (1 * (2 ^ 24 - 1)) = 16777215"
    by (subst round64_eval[where e = 23]) (simp_all add: round_half_even_def)
  show ?thesis
    unfolding latInt_def fadd_def fdiv_def fmul_def s1 s2 s3 by simp
qed

lemma lonInt_east: "lonInt 180 = 16777215"
proof -
  have s1: "round64 (180 + 180) = 360"
    by (subst round64_eval[where e = 8]) (simp_all add: round_half_even_def)
  have s2: "round64 (360 / 360) = 1"
    by (subst round64_eval[where e = 0]) (simp_all add: round_half_even_def)
  have s3: "round64 (1 * (2 ^ 24 - 1)) = 16777215"
    by (subst round64_eval[where e = 23]) (simp_all add: round_half_even_def)
  show ?thesis
    unfolding lonInt_def fadd_def fdiv_def fmul_def s1 s2 s3 by simp
qed

lemma latInt_zero: "latInt 0 = 8388607"
proof -
  have s1: "round64 (0 + 90) = 90"
    by (subst round64_eval[where e = 6]) (simp_all add: round_half_even_def)
  have s2: "round64 (90 / 180) = 1 / 2"
    by (subst round64_eval[where e = "- 1"]) (simp_all add: round_half_even_def)
  have s3: "round64 (1 / 2 * (2 ^ 24 - 1)) = 16777215 / 2"
    by (subst round64_eval[where e = 22]) (simp_all add: round_half_even_def)
  show ?thesis
    unfolding latInt_def fadd_def fdiv_def fmul_def s1 s2 s3 by simp
qed

lemma toDigits_middle: "toDigits 8388607 5 = ''M48TK''"
  by (simp add: toDigits_def BASE_eq CHARSET_def upt_rec)

lemma toDigits_example: "toDigits 7593815 5 = ''LYLQX''"
  by (simp add: toDigits_def BASE_eq CHARSET_def upt_rec)

lemma encode_out_of_range:
  assumes "\<not> (- 90 \<le> lat \<and> lat \<le> 90 \<and> - 180 \<le> lon \<and> lon \<le> 180)"
  shows "\<exists>e. encode lat lon = Inl e \<and> is_OutOfRange e"
proof (cases "- 90 \<le> lat \<and> lat \<le> 90")
  case False
  then show ?thesis by (simp add: encode_lat_error)
next
  case True
  with assms show ?thesis by (simp add: encode_lon_error)
qed

lemma roundtrip_example:
  "roundtrip (- (1200095051872999 / 2 ^ 47)) 0 =
     Inr (- (600048280911265 / 2 ^ 46), - (188743691 / 2 ^ 44))"
proof -
  have "roundtrip (- (1200095051872999 / 2 ^ 47)) 0 =
      Inr (fsub (fmul (fdiv (of_int (latInt (- (1200095051872999 / 2 ^ 47)))) (2 ^ 24 - 1)) 180) 90,
           fsub (fmul (fdiv (of_int (lonInt 0)) (2 ^ 24 - 1)) 360) 180)"
    by (rule roundtrip_Inr) simp_all
  then show ?thesis
    unfolding latInt_example lonInt_zero lat_decode_example lon_decode_zero .
qed

text \<open>
  In exact real arithmetic the same input scales to just above \<open>7593816\<close>; the float
  product is just below it, so \<open>encode\<close> takes the bucket \<open>7593815\<close>.
\<close>

lemma exact_floor_example: "exactLatInt (- (1200095051872999 / 2 ^ 47)) = 7593816"
  by (simp add: exactLatInt_def latNorm_def)

lemma exactLonInt_zero: "exactLonInt 0 = 8388607"
  by (simp add: exactLonInt_def lonNorm_def)

lemma toDigits_next: "toDigits 7593816 5 = ''LYLQY''"
  by (simp add: toDigits_def BASE_eq CHARSET_def upt_rec)

lemma encode_example: "encode (- (1200095051872999 / 2 ^ 47)) 0 = Inr ''LYLQXM48TK''"
proof -
  have "encode (- (1200095051872999 / 2 ^ 47)) 0 =
      Inr (toDigits (latInt (- (1200095051872999 / 2 ^ 47))) 5 @ toDigits (lonInt 0) 5)"
    by (rule encode_Inr) simp_all
  then show ?thesis
    unfolding latInt_example lonInt_zero toDigits_example toDigits_middle by simp
qed

lemma exact_fields_example:
  "toDigits (exactLatInt (- (1200095051872999 / 2 ^ 47))) 5 @ toDigits (exactLonInt 0) 5 =
     ''LYLQYM48TK''"
  unfolding exact_floor_example exactLonInt_zero toDigits_next toDigits_middle by simp

section \<open>The claims\<close>

text \<open>
  C1.  For every integer \<open>n\<close> in \<open>[0, 2^24 - 1]\<close>, decoding the five-symbol string that
  \<open>int_to_base29\<close> produces for \<open>n\<close> gives \<open>n\<close> back:
  \<open>base29_to_int(int_to_base29(n, 5)) == n\<close>.
\<close>

theorem codec_roundtrip_24bit:
  assumes "0 \<le> n" "n \<le> 2 ^ 24 - 1"
  shows "\<exists>s. int_to_base29 n 5 = Inr s \<and> base29_to_int s = Inr n"
proof -
  from assms have "n mod 29 ^ 5 = n" by simp
  then show ?thesis
    by (simp add: int_to_base29_toDigits base29_to_int_toDigits)
qed

theorem codec_roundtrip_24bit_witness:
  "(0::int) \<le> 16777215 \<and> (16777215::int) \<le> 2 ^ 24 - 1 \<and>
   (\<exists>s. int_to_base29 16777215 5 = Inr s \<and> base29_to_int s = Inr 16777215)"
  using codec_roundtrip_24bit[of 16777215] by simp

text \<open>
  C2, as stated, fails when the formula is the exact one: for the float
  \<open>-8.5271882133\<close> and longitude \<open>0\<close>, \<open>encode\<close> returns \<open>LYLQXM48TK\<close>, the digits of
  \<open>7593815\<close> and \<open>8388607\<close>, while \<open>floor(((lat + 90) / 180) * (2^24 - 1))\<close> is \<open>7593816\<close>,
  whose digits are \<open>LYLQY\<close>.
\<close>

theorem encode_exact_formula_counterexample:
  "is_float64 (- (1200095051872999 / 2 ^ 47)) \<and>
   - 90 \<le> (- (1200095051872999 / 2 ^ 47) :: real) \<and>
   (- (1200095051872999 / 2 ^ 47) :: real) \<le> 90 \<and>
   - 180 \<le> (0 :: real) \<and> (0 :: real) \<le> 180 \<and>
   encode (- (1200095051872999 / 2 ^ 47)) 0 = Inr ''LYLQXM48TK'' \<and>
   toDigits (exactLatInt (- (1200095051872999 / 2 ^ 47))) 5 @ toDigits (exactLonInt 0) 5 =
     ''LYLQYM48TK'' \<and>
   ''LYLQXM48TK'' \<noteq> ''LYLQYM48TK''"
  using float_example encode_example exact_fields_example by simp

text \<open>
  C2, amended.  For a latitude in \<open>[-90, 90]\<close> and a longitude in \<open>[-180, 180]\<close>, \<open>encode\<close>
  returns the five digits of \<open>lat_int\<close> followed by the five digits of \<open>lon_int\<close>, the
  latitude field first, where \<open>lat_int\<close> and \<open>lon_int\<close> are the floors of
  \<open>((lat + 90) / 180) * (2^24 - 1)\<close> and \<open>((lon + 180) / 360) * (2^24 - 1)\<close> as the floats
  compute them.  With \<open>z\<close> the exact value of the expression, each integer lies between
  \<open>floor(z - 1e-8)\<close> and \<open>floor(z + 1e-8)\<close>: it is the exact floor unless \<open>z\<close> is within
  \<open>1e-8\<close> of an integer, and it is never more than one away from the exact floor.
\<close>

theorem encode_fields:
  assumes "- 90 \<le> lat" "lat \<le> 90" "- 180 \<le> lon" "lon \<le> 180"
  shows "encode lat lon = Inr (toDigits (latInt lat) 5 @ toDigits (lonInt lon) 5) \<and>
         int_to_base29 (latInt lat) 5 = Inr (toDigits (latInt lat) 5) \<and>
         int_to_base29 (lonInt lon) 5 = Inr (toDigits (lonInt lon) 5) \<and>
         \<lfloor>latNorm lat * (2 ^ 24 - 1) - 1 / 10 ^ 8\<rfloor> \<le> latInt lat \<and>
         latInt lat \<le> \<lfloor>latNorm lat * (2 ^ 24 - 1) + 1 / 10 ^ 8\<rfloor> \<and>
         \<lfloor>lonNorm lon * (2 ^ 24 - 1) - 1 / 10 ^ 8\<rfloor> \<le> lonInt lon \<and>
         lonInt lon \<le> \<lfloor>lonNorm lon * (2 ^ 24 - 1) + 1 / 10 ^ 8\<rfloor> \<and>
         exactLatInt lat - 1 \<le> latInt lat \<and> latInt lat \<le> exactLatInt lat + 1 \<and>
         exactLonInt lon - 1 \<le> lonInt lon \<and> lonInt lon \<le> exactLonInt lon + 1"
  using encode_Inr[OF assms] latInt_near_exact[OF assms(1,2)] lonInt_near_exact[OF assms(3,4)]
    latInt_within_one[OF assms(1,2)] lonInt_within_one[OF assms(3,4)]
  by (simp add: int_to_base29_toDigits)

theorem encode_fields_witness:
  "- 90 \<le> (- (1200095051872999 / 2 ^ 47) :: real) \<and>
   (- (1200095051872999 / 2 ^ 47) :: real) \<le> 90 \<and>
   - 180 \<le> (0::real) \<and> (0::real) \<le> 180 \<and>
   encode (- (1200095051872999 / 2 ^ 47)) 0 = Inr ''LYLQXM48TK'' \<and>
   latInt (- (1200095051872999 / 2 ^ 47)) = 7593815 \<and>
   exactLatInt (- (1200095051872999 / 2 ^ 47)) = 7593816 \<and>
   exactLatInt (- (1200095051872999 / 2 ^ 47)) - 1 \<le> latInt (- (1200095051872999 / 2 ^ 47)) \<and>
   lonInt 0 = 8388607 \<and> exactLonInt 0 = 8388607 \<and>
   lonInt 0 \<le> exactLonInt 0 + 1"
  using encode_fields[of "- (1200095051872999 / 2 ^ 47)" 0]
    encode_example latInt_example exact_floor_example lonInt_zero exactLonInt_zero
  by simp

text \<open>
  C3, as the spec states it, fails: the round trip of the float \<open>-8.5271882133\<close> with
  longitude \<open>0\<close> gives the latitude \<open>-8.527198942136707\<close>, which is further than
  \<open>180 / (2^24 - 1)\<close> from the input.  The float \<open>lat_norm * (2**24 - 1)\<close> is
  \<open>7593815.999999999\<close>, while \<open>((lat + 90) / 180) * (2^24 - 1)\<close> in exact arithmetic is
  just above \<open>7593816\<close>: the floor takes the bucket below.
\<close>

theorem roundtrip_bound_counterexample:
  "is_float64 (- (1200095051872999 / 2 ^ 47)) \<and>
   - 90 \<le> (- (1200095051872999 / 2 ^ 47) :: real) \<and>
   (- (1200095051872999 / 2 ^ 47) :: real) \<le> 90 \<and>
   roundtrip (- (1200095051872999 / 2 ^ 47)) 0 =
     Inr (- (600048280911265 / 2 ^ 46), - (188743691 / 2 ^ 44)) \<and>
   180 / (2 ^ 24 - 1) <
     \<bar>- (600048280911265 / 2 ^ 46) - (- (1200095051872999 / 2 ^ 47)) :: real\<bar>"
  using roundtrip_example float_example by simp

text \<open>
  C3, amended.  For a latitude in \<open>[-90, 90]\<close> and a longitude in \<open>[-180, 180]\<close>, the round
  trip \<open>decode(encode(lat, lon))\<close> succeeds and differs from the input by at most one
  quantization bucket plus the accumulated float rounding on each axis:
  \<open>|lat' - lat| \<le> 180 / (2^24 - 1) + 2e-13\<close> and \<open>|lon' - lon| \<le> 360 / (2^24 - 1) + 2e-13\<close>.
\<close>

theorem roundtrip_error_bound:
  assumes "- 90 \<le> lat" "lat \<le> 90" "- 180 \<le> lon" "lon \<le> 180"
  shows "\<exists>lat' lon'. roundtrip lat lon = Inr (lat', lon') \<and>
           \<bar>lat' - lat\<bar> \<le> 180 / (2 ^ 24 - 1) + 2 / 10 ^ 13 \<and>
           \<bar>lon' - lon\<bar> \<le> 360 / (2 ^ 24 - 1) + 2 / 10 ^ 13"
  using roundtrip_Inr[OF assms] lat_roundtrip_error[OF assms(1,2)]
    lon_roundtrip_error[OF assms(3,4)]
  by blast

theorem roundtrip_error_bound_witness:
  "- 90 \<le> (- (1200095051872999 / 2 ^ 47) :: real) \<and>
   (- (1200095051872999 / 2 ^ 47) :: real) \<le> 90 \<and>
   - 180 \<le> (0::real) \<and> (0::real) \<le> 180 \<and>
   (\<exists>lat' lon'. roundtrip (- (1200095051872999 / 2 ^ 47)) 0 = Inr (lat', lon') \<and>
      \<bar>lat' - (- (1200095051872999 / 2 ^ 47))\<bar> \<le> 180 / (2 ^ 24 - 1) + 2 / 10 ^ 13 \<and>
      \<bar>lon' - 0\<bar> \<le> 360 / (2 ^ 24 - 1) + 2 / 10 ^ 13)"
  using roundtrip_error_bound[of "- (1200095051872999 / 2 ^ 47)" 0] by simp

text \<open>
  C4.  \<open>encode\<close> fails with an out-of-range error exactly when the latitude is outside
  \<open>[-90, 90]\<close> or the longitude is outside \<open>[-180, 180]\<close>, bounds included; on an
  in-range input it returns a code, and it never fails in any other way.
\<close>

theorem encode_out_of_range_iff:
  "((\<exists>e. encode lat lon = Inl e \<and> is_OutOfRange e) \<longleftrightarrow>
      \<not> (- 90 \<le> lat \<and> lat \<le> 90 \<and> - 180 \<le> lon \<and> lon \<le> 180)) \<and>
   ((- 90 \<le> lat \<and> lat \<le> 90 \<and> - 180 \<le> lon \<and> lon \<le> 180) \<longrightarrow>
      (\<exists>code. encode lat lon = Inr code)) \<and>
   (\<forall>e. encode lat lon = Inl e \<longrightarrow> is_OutOfRange e)"
proof (cases "- 90 \<le> lat \<and> lat \<le> 90 \<and> - 180 \<le> lon \<and> lon \<le> 180")
  case True
  then have "encode lat lon = Inr (toDigits (latInt lat) 5 @ toDigits (lonInt lon) 5)"
    by (simp add: encode_Inr)
  with True show ?thesis by simp
next
  case False
  from encode_out_of_range[OF this] obtain e where "encode lat lon = Inl e" "is_OutOfRange e"
    by blast
  with False show ?thesis by auto
qed

theorem encode_out_of_range_iff_witness:
  "(\<exists>e. encode 91 0 = Inl e \<and> is_OutOfRange e) \<and>
   (\<exists>e. encode 0 (- 181) = Inl e \<and> is_OutOfRange e) \<and>
   (\<exists>code. encode 90 180 = Inr code) \<and>
   (\<exists>code. encode (- 90) (- 180) = Inr code)"
  using encode_out_of_range_iff[of 91 0] encode_out_of_range_iff[of 0 "- 181"]
    encode_out_of_range_iff[of 90 180] encode_out_of_range_iff[of "- 90" "- 180"]
  by simp

text \<open>
  C5.  \<open>decode\<close> fails with the length error exactly when the code is not ten symbols
  long; a ten-symbol code fails with the symbol error exactly when one of its
  characters is not in the alphabet; the length is checked first, so a symbol error
  is only ever reported for a ten-symbol code, and it carries a character of the code
  that is not in the alphabet.
\<close>

theorem decode_errors:
  "(decode code = Inl InvalidLength \<longleftrightarrow> length code \<noteq> 10) \<and>
   (length code = 10 \<longrightarrow>
      ((\<exists>c. decode code = Inl (InvalidSymbol c)) \<longleftrightarrow> (\<exists>c \<in> set code. c \<notin> set CHARSET))) \<and>
   (\<forall>c. decode code = Inl (InvalidSymbol c) \<longrightarrow>
      length code = 10 \<and> c \<in> set code \<and> c \<notin> set CHARSET)"
proof (cases "length code = 10")
  case False
  then show ?thesis by (simp add: decode_short)
next
  case len: True
  show ?thesis
  proof (cases "set code \<subseteq> set CHARSET")
    case True
    from decode_ok[OF len True] obtain r where "decode code = Inr r" ..
    with len True show ?thesis by auto
  next
    case False
    from decode_bad[OF len False] obtain c where
      "c \<in> set code" "c \<notin> set CHARSET" "decode code = Inl (InvalidSymbol c)" by blast
    with len show ?thesis by auto
  qed
qed

theorem decode_errors_witness:
  "decode ''ABCDEFGHI'' = Inl InvalidLength \<and>
   decode ''AAAAAAAAAAA'' = Inl InvalidLength \<and>
   length ''AAAAAAAAAI'' = 10 \<and>
   decode ''AAAAAAAAAI'' = Inl (InvalidSymbol CHR ''I'')"
proof -
  have "\<exists>c. decode ''AAAAAAAAAI'' = Inl (InvalidSymbol c)"
    using decode_errors[of "''AAAAAAAAAI''"] by (simp add: CHARSET_def)
  then obtain c where c: "decode ''AAAAAAAAAI'' = Inl (InvalidSymbol c)" ..
  with decode_errors[of "''AAAAAAAAAI''"] have "c \<in> set ''AAAAAAAAAI''" "c \<notin> set CHARSET"
    by blast+
  then have "c = CHR ''I''" by (auto simp: CHARSET_def)
  with c show ?thesis
    using decode_errors[of "''ABCDEFGHI''"] decode_errors[of "''AAAAAAAAAAA''"] by simp
qed

text \<open>
  C6.  \<open>decode\<close> does not check the decoded integers against the 24-bit range: the
  ten-symbol code \<open>9999999999\<close> lies in the alphabet, each of its fields decodes to
  \<open>29^5 - 1 = 20511148\<close>, above \<open>2^24 - 1\<close>, and \<open>decode\<close> returns the latitude
  \<open>130.06...\<close> and the longitude \<open>260.12...\<close> without an error.
\<close>

theorem decode_unvalidated:
  "length ''9999999999'' = 10 \<and>
   list_all (\<lambda>c. c \<in> set CHARSET) ''9999999999'' \<and>
   base29_to_int ''99999'' = Inr 20511148 \<and>
   (2 ^ 24 - 1 :: int) < 20511148 \<and>
   decode ''9999999999'' = Inr (2288053041297629 / 2 ^ 44, 2288053041297629 / 2 ^ 43) \<and>
   (90 :: real) < 2288053041297629 / 2 ^ 44 \<and>
   (180 :: real) < 2288053041297629 / 2 ^ 43"
  by (simp add: base29_to_int_nines decode_nines CHARSET_def)

text \<open>
  C7.  \<open>int_to_base29\<close> truncates and does not fail: for a non-negative \<open>n\<close> and a
  positive length it returns exactly that many symbols, the same string as for
  \<open>n mod 29^length\<close>, and raises no error when \<open>n \<ge> 29^length\<close>.
\<close>

theorem int_to_base29_truncates:
  assumes "0 \<le> n" "0 < len"
  shows "\<exists>s. int_to_base29 n len = Inr s \<and> length s = len \<and>
             int_to_base29 (n mod 29 ^ len) len = Inr s"
  by (simp add: int_to_base29_toDigits length_toDigits toDigits_mod)

theorem int_to_base29_truncates_witness:
  "(0::int) \<le> 20511150 \<and> (0::nat) < 5 \<and> (29::int) ^ 5 \<le> 20511150 \<and>
   (\<exists>s. int_to_base29 20511150 5 = Inr s \<and> length s = 5 \<and>
        int_to_base29 (20511150 mod 29 ^ 5) 5 = Inr s)"
  using int_to_base29_truncates[of 20511150 5] by simp

text \<open>
  C8.  For a latitude in \<open>[-90, 90]\<close> and a longitude in \<open>[-180, 180]\<close>, \<open>encode\<close> returns
  a string of exactly ten characters, each of them in the 29-symbol alphabet.
\<close>

theorem encode_length_alphabet:
  assumes "- 90 \<le> lat" "lat \<le> 90" "- 180 \<le> lon" "lon \<le> 180"
  shows "\<exists>code. encode lat lon = Inr code \<and> length code = 10 \<and>
           list_all (\<lambda>c. c \<in> set CHARSET) code"
proof -
  have "list_all (\<lambda>c. c \<in> set CHARSET) (toDigits n 5)" for n
    using toDigits_in_CHARSET[of n 5] by (auto simp: list_all_iff)
  then show ?thesis
    by (simp add: encode_Inr[OF assms] length_toDigits)
qed

theorem encode_length_alphabet_witness:
  "- 90 \<le> (90::real) \<and> (90::real) \<le> 90 \<and> - 180 \<le> (- 180::real) \<and> (- 180::real) \<le> 180 \<and>
   (\<exists>code. encode 90 (- 180) = Inr code \<and> length code = 10 \<and>
      list_all (\<lambda>c. c \<in> set CHARSET) code)"
  using encode_length_alphabet[of 90 "- 180"] by simp

text \<open>
  C9.  For a latitude in \<open>[-90, 90]\<close> and a longitude in \<open>[-180, 180]\<close>,
  \<open>calculate_error\<close> is the geodesic distance function applied to the original pair
  and to the round-tripped pair \<open>decode(encode(lat, lon))\<close>; for any other input it
  fails with the very out-of-range error that \<open>encode\<close> raises.
\<close>

theorem calculate_error_spec:
  "((- 90 \<le> lat \<and> lat \<le> 90 \<and> - 180 \<le> lon \<and> lon \<le> 180) \<longrightarrow>
      (\<exists>decoded. roundtrip lat lon = Inr decoded \<and>
         calculate_error geodesic lat lon = Inr (geodesic (lat, lon) decoded))) \<and>
   (\<not> (- 90 \<le> lat \<and> lat \<le> 90 \<and> - 180 \<le> lon \<and> lon \<le> 180) \<longrightarrow>
      (\<exists>e. encode lat lon = Inl e \<and> is_OutOfRange e \<and>
         calculate_error geodesic lat lon = Inl e))"
proof (cases "- 90 \<le> lat \<and> lat \<le> 90 \<and> - 180 \<le> lon \<and> lon \<le> 180")
  case True
  then have r: "- 90 \<le> lat" "lat \<le> 90" "- 180 \<le> lon" "lon \<le> 180" by simp_all
  from roundtrip_Inr[OF r] obtain decoded where d: "roundtrip lat lon = Inr decoded" by blast
  then have "calculate_error geodesic lat lon = Inr (geodesic (lat, lon) decoded)"
    by (auto simp: roundtrip_def calculate_error_def encode_Inr[OF r] split: prod.splits)
  with True d show ?thesis by blast
next
  case False
  from encode_out_of_range[OF this] obtain e where "encode lat lon = Inl e" "is_OutOfRange e"
    by blast
  with False show ?thesis by (simp add: calculate_error_def)
qed

theorem calculate_error_spec_witness:
  "roundtrip (- (1200095051872999 / 2 ^ 47)) 0 =
     Inr (- (600048280911265 / 2 ^ 46), - (188743691 / 2 ^ 44)) \<and>
   calculate_error (\<lambda>p q. \<bar>fst p - fst q\<bar> + \<bar>snd p - snd q\<bar>) (- (1200095051872999 / 2 ^ 47)) 0 =
     Inr (\<bar>- (1200095051872999 / 2 ^ 47) - (- (600048280911265 / 2 ^ 46))\<bar>
          + \<bar>0 - (- (188743691 / 2 ^ 44))\<bar>) \<and>
   encode 91 0 = Inl LatOutOfRange \<and>
   calculate_error (\<lambda>p q. \<bar>fst p - fst q\<bar> + \<bar>snd p - snd q\<bar>) 91 0 = Inl LatOutOfRange"
proof -
  have "encode 91 0 = Inl LatOutOfRange"
    by (simp add: encode_lat_error)
  with roundtrip_example show ?thesis
    using calculate_error_spec[of "- (1200095051872999 / 2 ^ 47)" 0
        "\<lambda>p q. \<bar>fst p - fst q\<bar> + \<bar>snd p - snd q\<bar>"]
      calculate_error_spec[of 91 0 "\<lambda>p q. \<bar>fst p - fst q\<bar> + \<bar>snd p - snd q\<bar>"]
    by simp
qed

text \<open>
  C10.  For a latitude in \<open>[-90, 90]\<close> and a longitude in \<open>[-180, 180]\<close>, the two integers
  that \<open>encode\<close> serialises lie in \<open>[0, 2^24 - 1]\<close>, also at the boundary inputs \<open>90\<close> and
  \<open>180\<close>; so they are below \<open>29^5\<close>, \<open>int_to_base29\<close> drops no digit of them, and each
  five-symbol field decodes back to its integer.
\<close>

theorem encode_ints_in_range:
  assumes "- 90 \<le> lat" "lat \<le> 90" "- 180 \<le> lon" "lon \<le> 180"
  shows "0 \<le> latInt lat \<and> latInt lat \<le> 2 ^ 24 - 1 \<and>
         0 \<le> lonInt lon \<and> lonInt lon \<le> 2 ^ 24 - 1 \<and>
         latInt lat mod 29 ^ 5 = latInt lat \<and> lonInt lon mod 29 ^ 5 = lonInt lon \<and>
         encode lat lon = Inr (toDigits (latInt lat) 5 @ toDigits (lonInt lon) 5) \<and>
         base29_to_int (toDigits (latInt lat) 5) = Inr (latInt lat) \<and>
         base29_to_int (toDigits (lonInt lon) 5) = Inr (lonInt lon)"
proof -
  note a = latInt_bounds[OF assms(1,2)]
  note b = lonInt_bounds[OF assms(3,4)]
  have m: "latInt lat mod 29 ^ 5 = latInt lat" "lonInt lon mod 29 ^ 5 = lonInt lon"
    using a b by simp_all
  show ?thesis
    using a b m by (simp add: encode_Inr[OF assms] base29_to_int_toDigits)
qed

theorem encode_ints_in_range_witness:
  "- 90 \<le> (90::real) \<and> (90::real) \<le> 90 \<and> - 180 \<le> (180::real) \<and> (180::real) \<le> 180 \<and>
   latInt 90 = 2 ^ 24 - 1 \<and> lonInt 180 = 2 ^ 24 - 1 \<and>
   encode 90 180 = Inr (toDigits (2 ^ 24 - 1) 5 @ toDigits (2 ^ 24 - 1) 5) \<and>
   base29_to_int (toDigits (2 ^ 24 - 1) 5) = Inr (2 ^ 24 - 1)"
  using encode_ints_in_range[of 90 180] by (simp add: latInt_north lonInt_east)

end
